theory Spec2Isabelle
  imports Complex_Main
begin

section \<open>TinyTask for Linux: the capture and replay engine of tinytask_enhanced.py\<close>

text \<open>
  The embedding follows the three classes of the source that carry the engine:
  \<open>SafeKeyParser\<close>, \<open>EnhancedRecorder\<close> and \<open>EnhancedPlayer\<close>. Python floats
  (timestamps, the speed multiplier, the wall clock) are read as real numbers and
  Python ints as \<open>int\<close>. Everything that belongs to pynput (the \<open>Key\<close> enumeration,
  \<open>KeyCode.from_char\<close>, \<open>mouse.Button\<close>, the two controllers) is a parameter of the
  model, collected in the record \<open>backend\<close>.
\<close>

subsection \<open>Python values and exceptions\<close>

datatype exn =
    AttributeError | IndexError | TypeError | ZeroDivisionError | ValueError | OverflowError
  | BackendError

text \<open>
  A pynput key object: a member of the enumeration \<open>Key\<close> (by its member name), or a
  \<open>KeyCode\<close> with its \<open>char\<close> attribute (\<open>None\<close> for a key without a character) and
  the text Python's \<open>str()\<close> gives for it.
\<close>

datatype pkey = Special string | KeyCode "string option" string

text \<open>
  What \<open>parse_key\<close> hands to the keyboard controller: a key object, a Python str, or
  any other Python object (by the text of its \<open>repr\<close>), since \<open>getattr\<close> on the class
  \<open>Key\<close> finds every attribute of the class and not only its members.
\<close>

datatype keyval = KeyObj pkey | KeyStr string | OtherObj string

datatype injection =
    SetPosition int int
  | ButtonPress string
  | ButtonRelease string
  | ScrollBy int int
  | KeyDown keyval
  | KeyUp keyval

text \<open>
  The library behind the engine. \<open>key_attr name\<close> is \<open>getattr(Key, name)\<close>: a member of
  the enumeration for a member name, another object for any other attribute of the
  class (\<open>__name__\<close>, \<open>__members__\<close>, \<open>mro\<close>, ...), and \<open>None\<close> for the AttributeError
  that the three-argument \<open>getattr\<close> of \<open>parse_key\<close> turns into its default; \<open>from_char\<close> is \<open>KeyCode.from_char\<close>, which may raise; \<open>button_attr\<close> is
  \<open>getattr(mouse.Button, name)\<close>, \<open>None\<close> again the AttributeError; \<open>accepts\<close> tells
  whether a controller call returns (\<open>True\<close>) or raises.
\<close>

record backend =
  key_attr :: "string \<Rightarrow> keyval option"
  from_char :: "string \<Rightarrow> exn + pkey"
  button_attr :: "string \<Rightarrow> string option"
  accepts :: "injection \<Rightarrow> bool"

subsection \<open>Strings\<close>

text \<open>\<open>s.split(c)\<close> for a one-character separator: never empty, empty fields kept.\<close>

fun split_on :: "char \<Rightarrow> string \<Rightarrow> string list" where
  "split_on c [] = [[]]"
| "split_on c (x # xs) =
     (if x = c then [] # split_on c xs
      else (case split_on c xs of
              [] \<Rightarrow> [[x]]
            | w # ws \<Rightarrow> (x # w) # ws))"

definition startswith :: "string \<Rightarrow> string \<Rightarrow> bool" where
  "startswith s p = (take (length p) s = p)"

definition endswith :: "string \<Rightarrow> string \<Rightarrow> bool" where
  "endswith s p = (length p \<le> length s \<and> drop (length s - length p) s = p)"

text \<open>\<open>xs[i]\<close> for \<open>i \<ge> 0\<close>: IndexError out of range.\<close>

definition index :: "'a list \<Rightarrow> nat \<Rightarrow> exn + 'a" where
  "index xs i = (if i < length xs then Inr (xs ! i) else Inl IndexError)"

subsection \<open>SafeKeyParser\<close>

definition parse_key :: "backend \<Rightarrow> string \<Rightarrow> exn + keyval" where
  "parse_key B key_str =
     (if startswith key_str ''Key.'' then
        (case index (split_on CHR ''.'' key_str) 1 of
           Inl e \<Rightarrow> Inl e
         | Inr key_name \<Rightarrow>
             (case key_attr B key_name of
                Some v \<Rightarrow> Inr v
              | None \<Rightarrow> Inr (KeyStr key_str)))
      else if startswith key_str [CHR 0x27] \<and> endswith key_str [CHR 0x27]
              \<and> length key_str = 3 then
        (case index key_str 1 of
           Inl e \<Rightarrow> Inl e
         | Inr c \<Rightarrow> Inr (KeyStr [c]))
      else
        (case from_char B key_str of
           Inl e \<Rightarrow> Inr (KeyStr key_str)
         | Inr k \<Rightarrow> Inr (KeyObj k)))"

text \<open>
  \<open>key_to_string\<close>: a key with a non-empty \<open>char\<close> is written as the character in
  single quotes, any other key as \<open>str(key)\<close>; for a member of \<open>Key\<close> that is
  \<open>Key.<name>\<close>.
\<close>

fun py_str :: "pkey \<Rightarrow> string" where
  "py_str (Special name) = ''Key.'' @ name"
| "py_str (KeyCode c s) = s"

fun key_to_string :: "pkey \<Rightarrow> string" where
  "key_to_string (KeyCode (Some c) s) =
     (if c \<noteq> [] then [CHR 0x27] @ c @ [CHR 0x27] else py_str (KeyCode (Some c) s))"
| "key_to_string k = py_str k"

subsection \<open>Events\<close>

text \<open>
  An event of the log is the dict \<open>{'type': ..., 'data': {...}, 'time': ...}\<close> that
  \<open>_record_event\<close> appends; the five shapes the recorder writes are the five
  constructors, the fields in the order of the source.
\<close>

datatype event_data =
    mouse_move int int
  | mouse_click int int string bool
  | mouse_scroll int int int int
  | key_press string
  | key_release string

record event =
  data :: event_data
  time :: real

subsection \<open>EnhancedRecorder\<close>

text \<open>
  The fields of \<open>__init__\<close> that the handlers read or write. \<open>start_time\<close> is \<open>None\<close>
  until the first \<open>start()\<close>.
\<close>

record recorder =
  events :: "event list"
  recording :: bool
  start_time :: "real option"
  stop_event :: bool
  hotkey_stop :: bool
  mouse_move_threshold :: int
  last_mouse_pos :: "int \<times> int"
  record_mouse_moves :: bool

definition EnhancedRecorder :: recorder where
  "EnhancedRecorder =
     \<lparr> events = [], recording = False, start_time = None, stop_event = False,
       hotkey_stop = False, mouse_move_threshold = 5, last_mouse_pos = (0, 0),
       record_mouse_moves = True \<rparr>"

text \<open>
  Every handler takes the reading of \<open>time.time()\<close> at which it runs. Subtracting
  \<open>None\<close> from a float is a TypeError.
\<close>

definition record_event :: "real \<Rightarrow> event_data \<Rightarrow> recorder \<Rightarrow> exn + recorder" where
  "record_event now event_data R =
     (if \<not> recording R then Inr R
      else (case start_time R of
              None \<Rightarrow> Inl TypeError
            | Some t0 \<Rightarrow>
                Inr (R\<lparr>events := events R @ [\<lparr>data = event_data, time = now - t0\<rparr>]\<rparr>)))"

definition on_click_handler :: "real \<Rightarrow> int \<Rightarrow> int \<Rightarrow> string \<Rightarrow> bool \<Rightarrow> recorder \<Rightarrow> exn + recorder" where
  "on_click_handler now x y button pressed R = record_event now (mouse_click x y button pressed) R"

definition on_move_handler :: "real \<Rightarrow> int \<Rightarrow> int \<Rightarrow> recorder \<Rightarrow> exn + recorder" where
  "on_move_handler now x y R =
     (if \<not> record_mouse_moves R then Inr R
      else (case last_mouse_pos R of
              (last_x, last_y) \<Rightarrow>
                if \<bar>x - last_x\<bar> \<ge> mouse_move_threshold R \<or> \<bar>y - last_y\<bar> \<ge> mouse_move_threshold R
                then (case record_event now (mouse_move x y) R of
                        Inl e \<Rightarrow> Inl e
                      | Inr R' \<Rightarrow> Inr (R'\<lparr>last_mouse_pos := (x, y)\<rparr>))
                else Inr R))"

definition on_scroll_handler :: "real \<Rightarrow> int \<Rightarrow> int \<Rightarrow> int \<Rightarrow> int \<Rightarrow> recorder \<Rightarrow> exn + recorder" where
  "on_scroll_handler now x y dx dy R = record_event now (mouse_scroll x y dx dy) R"

definition recorder_stop :: "recorder \<Rightarrow> recorder" where
  "recorder_stop R = R\<lparr>stop_event := True, recording := False\<rparr>"

definition on_press_handler :: "real \<Rightarrow> pkey \<Rightarrow> recorder \<Rightarrow> exn + recorder" where
  "on_press_handler now key R =
     (case record_event now (key_press (key_to_string key)) R of
        Inl e \<Rightarrow> Inl e
      | Inr R' \<Rightarrow> if key = Special ''f9'' then Inr (recorder_stop R') else Inr R')"

definition on_release_handler :: "real \<Rightarrow> pkey \<Rightarrow> recorder \<Rightarrow> exn + recorder" where
  "on_release_handler now key R = record_event now (key_release (key_to_string key)) R"

text \<open>
  \<open>start()\<close> up to the point where it blocks on \<open>stop_event.wait()\<close>: the resets, after
  which the two listeners call the handlers.
\<close>

definition recorder_start :: "real \<Rightarrow> recorder \<Rightarrow> recorder" where
  "recorder_start now R =
     R\<lparr>events := [], recording := True, start_time := Some now,
       stop_event := False, hotkey_stop := False\<rparr>"

text \<open>
  What the listeners deliver: the callback and its arguments (a mouse button as the text
  of \<open>str(button)\<close>), each with the clock reading of its arrival, in arrival order.
\<close>

datatype notification =
    on_click int int string bool
  | on_move int int
  | on_scroll int int int int
  | on_press pkey
  | on_release pkey

fun handle :: "real \<Rightarrow> notification \<Rightarrow> recorder \<Rightarrow> exn + recorder" where
  "handle now (on_click x y button pressed) R = on_click_handler now x y button pressed R"
| "handle now (on_move x y) R = on_move_handler now x y R"
| "handle now (on_scroll x y dx dy) R = on_scroll_handler now x y dx dy R"
| "handle now (on_press key) R = on_press_handler now key R"
| "handle now (on_release key) R = on_release_handler now key R"

fun deliver :: "(real \<times> notification) list \<Rightarrow> recorder \<Rightarrow> exn + recorder" where
  "deliver [] R = Inr R"
| "deliver ((now, n) # ns) R =
     (case handle now n R of
        Inl e \<Rightarrow> Inl e
      | Inr R' \<Rightarrow> deliver ns R')"

text \<open>
  The filter as the specification words it: a move is kept iff the larger of its two
  coordinate distances from the last kept position reaches the threshold.
\<close>

fun retained :: "int \<Rightarrow> int \<times> int \<Rightarrow> (real \<times> int \<times> int) list \<Rightarrow> (real \<times> int \<times> int) list" where
  "retained thr l [] = []"
| "retained thr l ((t, x, y) # ms) =
     (if max \<bar>x - fst l\<bar> \<bar>y - snd l\<bar> \<ge> thr
      then (t, x, y) # retained thr (x, y) ms
      else retained thr l ms)"

definition move_notifications :: "(real \<times> int \<times> int) list \<Rightarrow> (real \<times> notification) list" where
  "move_notifications ms = map (\<lambda>(t, x, y). (t, on_move x y)) ms"

definition move_events :: "real \<Rightarrow> (real \<times> int \<times> int) list \<Rightarrow> event list" where
  "move_events t0 ms = map (\<lambda>(t, x, y). \<lparr>data = mouse_move x y, time = t - t0\<rparr>) ms"

subsection \<open>EnhancedPlayer: the world it runs in\<close>

text \<open>
  \<open>stop()\<close>, \<open>pause()\<close> and \<open>resume()\<close> are called from another thread while \<open>play\<close>
  runs. The model gives the player a wall clock and the list of the calls the other
  thread will make, each with the clock reading at which it makes it. Only
  \<open>time.sleep\<close> moves the clock (executing an event and the callback take no time);
  when a sleep returns, every call whose time has come has been made. What the player
  does is written to a trace, each entry with the clock reading at which it happens.
\<close>

datatype control = Stop | Pause | Resume

text \<open>The three \<open>time.sleep\<close> calls of the player, by the place of the call.\<close>

datatype site = pause_poll | pre_event | between_loops

datatype effect =
    Sleep site real
  | Execute event "exn + injection"
  | Callback real int int
  | Print exn

record player =
  p_events :: "event list"
  playing :: bool
  paused :: bool
  speed_multiplier :: real
  loop_count :: int
  current_loop :: int
  clock :: real
  pending :: "(real \<times> control) list"
  trace :: "(real \<times> effect) list"

definition EnhancedPlayer :: "event list \<Rightarrow> real \<Rightarrow> (real \<times> control) list \<Rightarrow> player" where
  "EnhancedPlayer evs now ctl =
     \<lparr> p_events = evs, playing = False, paused = False, speed_multiplier = 1,
       loop_count = 1, current_loop = 0, clock = now, pending = ctl, trace = [] \<rparr>"

definition player_stop :: "player \<Rightarrow> player" where
  "player_stop st = st\<lparr>playing := False\<rparr>"

definition pause :: "player \<Rightarrow> player" where
  "pause st = st\<lparr>paused := True\<rparr>"

definition resume :: "player \<Rightarrow> player" where
  "resume st = st\<lparr>paused := False\<rparr>"

fun apply_control :: "control \<Rightarrow> player \<Rightarrow> player" where
  "apply_control Stop st = player_stop st"
| "apply_control Pause st = pause st"
| "apply_control Resume st = resume st"

fun apply_controls :: "control list \<Rightarrow> player \<Rightarrow> player" where
  "apply_controls [] st = st"
| "apply_controls (c # cs) st = apply_controls cs (apply_control c st)"

definition due :: "real \<Rightarrow> (real \<times> control) \<Rightarrow> bool" where
  "due now tc = (fst tc \<le> now)"

definition sync :: "player \<Rightarrow> player" where
  "sync st =
     (apply_controls (map snd (filter (due (clock st)) (pending st))) st)
       \<lparr>pending := filter (\<lambda>tc. \<not> due (clock st) tc) (pending st)\<rparr>"

definition emit :: "effect \<Rightarrow> player \<Rightarrow> player" where
  "emit eff st = st\<lparr>trace := trace st @ [(clock st, eff)]\<rparr>"

text \<open>What a call of \<open>time.sleep\<close> that returns does to the player.\<close>

definition sleep :: "site \<Rightarrow> real \<Rightarrow> player \<Rightarrow> player" where
  "sleep s d st = sync ((emit (Sleep s d) st)\<lparr>clock := clock st + d\<rparr>)"

text \<open>
  Modelled from the library: \<open>time.sleep(d)\<close> raises ValueError for a negative \<open>d\<close> and
  OverflowError for a \<open>d\<close> whose nanoseconds do not fit the signed 64-bit counter of the
  interpreter (from about \<open>9.2e9\<close> seconds on); nothing has happened then. Otherwise it
  returns after \<open>d\<close> seconds.
\<close>

definition sleep_fits :: "real \<Rightarrow> bool" where
  "sleep_fits d = (d * 10 ^ 9 < 2 ^ 63)"

definition time_sleep :: "site \<Rightarrow> real \<Rightarrow> player \<Rightarrow> exn + player" where
  "time_sleep s d st =
     (if d < 0 then Inl ValueError
      else if \<not> sleep_fits d then Inl OverflowError
      else Inr (sleep s d st))"

subsection \<open>EnhancedPlayer: executing one event\<close>

definition call :: "backend \<Rightarrow> injection \<Rightarrow> exn + injection" where
  "call B req = (if accepts B req then Inr req else Inl BackendError)"

text \<open>\<open>xs[-1]\<close>: IndexError on the empty list.\<close>

definition index_last :: "'a list \<Rightarrow> exn + 'a" where
  "index_last xs = (if xs = [] then Inl IndexError else Inr (last xs))"

text \<open>
  The body of the \<open>try\<close> of \<open>_execute_event\<close>: the controller call that was made, or the
  exception that the \<open>except\<close> clause catches and prints.
\<close>

fun outcome :: "backend \<Rightarrow> event \<Rightarrow> exn + injection" where
  "outcome B e =
     (case data e of
        mouse_move x y \<Rightarrow> call B (SetPosition x y)
      | mouse_click x y button pressed \<Rightarrow>
          (case index_last (split_on CHR ''.'' button) of
             Inl ex \<Rightarrow> Inl ex
           | Inr btn_str \<Rightarrow>
               (case button_attr B btn_str of
                  None \<Rightarrow> Inl AttributeError
                | Some btn \<Rightarrow>
                    if pressed then call B (ButtonPress btn) else call B (ButtonRelease btn)))
      | mouse_scroll x y dx dy \<Rightarrow> call B (ScrollBy dx dy)
      | key_press k \<Rightarrow>
          (case parse_key B k of
             Inl ex \<Rightarrow> Inl ex
           | Inr key \<Rightarrow> call B (KeyDown key))
      | key_release k \<Rightarrow>
          (case parse_key B k of
             Inl ex \<Rightarrow> Inl ex
           | Inr key \<Rightarrow> call B (KeyUp key)))"

definition execute_event :: "backend \<Rightarrow> event \<Rightarrow> player \<Rightarrow> player" where
  "execute_event B e st = emit (Execute e (outcome B e)) st"

subsection \<open>EnhancedPlayer: the loops\<close>

text \<open>
  \<open>while self.paused and self.playing: time.sleep(0.1)\<close>. The loop does not end when
  the player stays paused and nobody stops it: its value is then \<open>None\<close>. A sleep of
  0.1 s returns (\<open>time_sleep s (1 / 10) st = Inr (sleep s (1 / 10) st)\<close>, lemma
  \<open>time_sleep_tenth\<close>), so this loop and the \<open>while\<close> loop of \<open>play\<close> are written with
  what the call does when it returns.
\<close>

partial_function (option) pause_wait :: "player \<Rightarrow> player option" where
  "pause_wait st =
     (if paused st \<and> playing st then pause_wait (sleep pause_poll (1 / 10) st) else Some st)"

declare pause_wait.simps [code]

text \<open>
  One pass through the body of the \<open>for\<close> loop of \<open>_play_sequence\<close> after its checks:
  the delay, the sleep, the event, the callback. \<open>t0\<close> is the local \<open>start_time\<close>, \<open>n\<close>
  is \<open>len(self.events)\<close>, \<open>i\<close> the index of the event, \<open>cb\<close> tells whether a callback was
  passed. The division is by a speed that is not 0. An exception of \<open>time.sleep\<close> leaves
  the pass before the event is executed. The callback is taken to return (the one the
  window passes only schedules an update of the progress bar).
\<close>

definition run_event :: "backend \<Rightarrow> bool \<Rightarrow> real \<Rightarrow> nat \<Rightarrow> nat \<Rightarrow> event \<Rightarrow> player \<Rightarrow> exn + player" where
  "run_event B cb t0 n i e st1 =
     (let target_time = time e / speed_multiplier st1;
          elapsed = clock st1 - t0;
          delay = max 0 (target_time - elapsed)
      in case (if delay > 0 then time_sleep pre_event delay st1 else Inr st1) of
           Inl ex \<Rightarrow> Inl ex
         | Inr st2 \<Rightarrow>
             let st3 = execute_event B e st2
             in Inr (if cb
                     then emit (Callback (real (i + 1) / real n)
                                  (current_loop st3 + 1) (loop_count st3)) st3
                     else st3))"

text \<open>
  The \<open>for\<close> loop from its \<open>i\<close>-th event on. The result is the exception that left the
  loop, if one did, and the player.
\<close>

fun play_events ::
  "backend \<Rightarrow> bool \<Rightarrow> real \<Rightarrow> nat \<Rightarrow> nat \<Rightarrow> event list \<Rightarrow> player \<Rightarrow> (exn option \<times> player) option" where
  "play_events B cb t0 n i [] st = Some (None, st)"
| "play_events B cb t0 n i (e # es) st =
     (if \<not> playing st then Some (None, st)
      else (case pause_wait st of
              None \<Rightarrow> None
            | Some st1 \<Rightarrow>
                if \<not> playing st1 then Some (None, st1)
                else if speed_multiplier st1 = 0 then Some (Some ZeroDivisionError, st1)
                else (case run_event B cb t0 n i e st1 of
                        Inl ex \<Rightarrow> Some (Some ex, st1)
                      | Inr st4 \<Rightarrow> play_events B cb t0 n (i + 1) es st4)))"

definition play_sequence :: "backend \<Rightarrow> bool \<Rightarrow> player \<Rightarrow> (exn option \<times> player) option" where
  "play_sequence B cb st =
     (if p_events st = [] then Some (None, st)
      else play_events B cb (clock st) (length (p_events st)) 0 (p_events st) st)"

text \<open>The \<open>while\<close> loop of \<open>play\<close>.\<close>

partial_function (option) play_loop :: "backend \<Rightarrow> bool \<Rightarrow> player \<Rightarrow> (exn option \<times> player) option" where
  "play_loop B cb st =
     (if current_loop st < loop_count st \<and> playing st then
        (case play_sequence B cb st of
           None \<Rightarrow> None
         | Some r \<Rightarrow>
             (case fst r of
                Some ex \<Rightarrow> Some (Some ex, snd r)
              | None \<Rightarrow>
                  play_loop B cb
                    (let st1 = (snd r)\<lparr>current_loop := current_loop (snd r) + 1\<rparr>
                     in if current_loop st1 < loop_count st1
                        then sleep between_loops (1 / 10) st1 else st1)))
      else Some (None, st))"

declare play_loop.simps [code]

text \<open>
  \<open>play\<close>: the four assignments, the loop, the \<open>except\<close> clause that prints the
  exception, and the \<open>finally\<close> clause. The calls of the other thread that were due
  before \<open>play\<close> was entered have been made when it starts.
\<close>

definition play :: "backend \<Rightarrow> bool \<Rightarrow> real \<Rightarrow> int \<Rightarrow> player \<Rightarrow> player option" where
  "play B cb speed loops st0 =
     (case play_loop B cb
             ((sync st0)\<lparr>speed_multiplier := speed, loop_count := loops,
                         current_loop := 0, playing := True\<rparr>) of
        None \<Rightarrow> None
      | Some r \<Rightarrow>
          Some ((case fst r of
                   None \<Rightarrow> snd r
                 | Some ex \<Rightarrow> emit (Print ex) (snd r))\<lparr>playing := False\<rparr>))"

subsection \<open>Reading a trace\<close>


subsection \<open>A concrete backend\<close>

text \<open>
  A small instance of the library: three members of \<open>Key\<close> and two of the other
  attributes that every enumeration class has (its \<open>__name__\<close>, the str \<open>Key\<close>, and its
  \<open>__members__\<close>, a mapping), three mouse buttons,
  \<open>from_char\<close> that never raises, and a keyboard controller that raises for a str that
  is not a single character and for an object that is no key.
\<close>

definition sample_backend :: backend where
  "sample_backend =
     \<lparr> key_attr = (\<lambda>n. if n \<in> set [''space'', ''enter'', ''f9''] then Some (KeyObj (Special n))
                       else if n = ''__name__'' then Some (KeyStr ''Key'')
                       else if n = ''__members__'' then Some (OtherObj ''mappingproxy'')
                       else None),
       from_char = (\<lambda>s. Inr (KeyCode (Some s) ([CHR 0x27] @ s @ [CHR 0x27]))),
       button_attr = (\<lambda>n. if n \<in> set [''left'', ''middle'', ''right''] then Some n else None),
       accepts = (\<lambda>r. case r of
                     KeyDown (KeyStr s) \<Rightarrow> length s = 1
                   | KeyDown (OtherObj s) \<Rightarrow> False
                   | KeyUp (KeyStr s) \<Rightarrow> length s = 1
                   | KeyUp (OtherObj s) \<Rightarrow> False
                   | _ \<Rightarrow> True) \<rparr>"

subsection \<open>What a run did\<close>

definition effects :: "player \<Rightarrow> effect list" where
  "effects st = map snd (trace st)"

text \<open>The events given to \<open>_execute_event\<close> and the arguments given to the callback, in order.\<close>

fun executed :: "effect list \<Rightarrow> event list" where
  "executed [] = []"
| "executed (Execute e r # effs) = e # executed effs"
| "executed (eff # effs) = executed effs"

fun called_back :: "effect list \<Rightarrow> (real \<times> int \<times> int) list" where
  "called_back [] = []"
| "called_back (Callback p l n # effs) = (p, l, n) # called_back effs"
| "called_back (eff # effs) = called_back effs"

text \<open>
  The sleeps before an event and the polls of the pause loop are the waits; what is left
  of a trace without them is compared with the run as the specification words it: per
  loop iteration every event of the log, each followed by the callback with
  \<open>(i + 1) / len\<close>, the number of the iteration and the number of iterations; between
  two iterations the sleep of 100 ms.
\<close>

fun is_wait :: "effect \<Rightarrow> bool" where
  "is_wait (Sleep pre_event d) = True"
| "is_wait (Sleep pause_poll d) = True"
| "is_wait eff = False"

definition without_waits :: "effect list \<Rightarrow> effect list" where
  "without_waits effs = filter (\<lambda>eff. \<not> is_wait eff) effs"

fun sequence_effects :: "backend \<Rightarrow> bool \<Rightarrow> nat \<Rightarrow> nat \<Rightarrow> event list \<Rightarrow> int \<Rightarrow> int \<Rightarrow> effect list" where
  "sequence_effects B cb n i [] l N = []"
| "sequence_effects B cb n i (e # es) l N =
     Execute e (outcome B e)
       # (if cb then [Callback (real (i + 1) / real n) l N] else [])
       @ sequence_effects B cb n (i + 1) es l N"

fun run_effects :: "backend \<Rightarrow> bool \<Rightarrow> event list \<Rightarrow> nat \<Rightarrow> int \<Rightarrow> int \<Rightarrow> effect list" where
  "run_effects B cb evs 0 l N = []"
| "run_effects B cb evs (Suc k) l N =
     sequence_effects B cb (length evs) 0 evs l N
       @ (if k = 0 then [] else Sleep between_loops (1 / 10) # run_effects B cb evs k (l + 1) N)"

text \<open>No call of the other thread is outstanding, and the player plays and is not paused.\<close>

definition quiet :: "player \<Rightarrow> bool" where
  "quiet st = (pending st = [] \<and> \<not> paused st \<and> playing st)"

subsection \<open>Sample events\<close>

definition mv :: "real \<Rightarrow> event" where
  "mv t = \<lparr>data = mouse_move 10 20, time = t\<rparr>"

definition bad_key :: event where
  "bad_key = \<lparr>data = key_press ''Key.bogus'', time = 1\<rparr>"

definition far_move :: event where
  "far_move = mv (10 ^ 11)"

subsection \<open>The timing of a pass over the log\<close>

text \<open>
  The delay that \<open>_play_sequence\<close> computes for an event: the target time of the event,
  less the time that has passed since the loop-local origin \<open>t0\<close>, and not less than 0.
\<close>

definition delay_of :: "real \<Rightarrow> event \<Rightarrow> player \<Rightarrow> real" where
  "delay_of t0 e st1 = max 0 (time e / speed_multiplier st1 - (clock st1 - t0))"

text \<open>
  A trace keeps to the schedule with origin \<open>t0\<close> and speed \<open>s\<close> when every event that
  the loop slept for is executed when the sleep ends, at \<open>t0 + time / s\<close> exactly, and
  every event that is executed without a sleep is executed at \<open>t0 + time / s\<close> or later.
\<close>

fun on_schedule :: "real \<Rightarrow> real \<Rightarrow> (real \<times> effect) list \<Rightarrow> bool" where
  "on_schedule t0 s [] = True"
| "on_schedule t0 s ((c, Sleep pre_event d) # (c', Execute e r) # tr) =
     (c' = c + d \<and> c' = t0 + time e / s \<and> on_schedule t0 s tr)"
| "on_schedule t0 s ((c, Execute e r) # tr) = (t0 + time e / s \<le> c \<and> on_schedule t0 s tr)"
| "on_schedule t0 s (x # tr) = on_schedule t0 s tr"





subsection \<open>Stopping\<close>




section \<open>Key symbol resolution\<close>

lemma split_on_not_Nil: "split_on c s \<noteq> []"
  by (induction s) (auto split: list.splits)

lemma hd_split_on: "hd (split_on c s) = takeWhile (\<lambda>x. x \<noteq> c) s"
  by (induction s) (auto split: list.splits simp: split_on_not_Nil)

lemma split_on_prefix: "c \<notin> set a \<Longrightarrow> split_on c (a @ c # b) = a # split_on c b"
  by (induction a) (auto split: list.splits simp: split_on_not_Nil)

lemma split_on_Key: "split_on CHR ''.'' (''Key.'' @ name) = ''Key'' # split_on CHR ''.'' name"
  using split_on_prefix [of "CHR ''.''" "''Key''" name] by simp

text \<open>
  \<open>key_str.split('.')[1]\<close> of a string that starts with \<open>Key.\<close> exists: it is what
  stands between the first dot and the second (or the end).
\<close>

lemma index_split_Key:
  "index (split_on CHR ''.'' (''Key.'' @ name)) 1 = Inr (takeWhile (\<lambda>x. x \<noteq> CHR ''.'') name)"
proof -
  obtain w ws where "split_on CHR ''.'' name = w # ws"
    using split_on_not_Nil [of "CHR ''.''" name] by (cases "split_on CHR ''.'' name") auto
  moreover from this have "w = takeWhile (\<lambda>x. x \<noteq> CHR ''.'') name"
    using hd_split_on [of "CHR ''.''" name] by simp
  ultimately show ?thesis
    by (simp add: index_def split_on_Key)
qed

lemma startswith_Key: "startswith s ''Key.'' \<Longrightarrow> s = ''Key.'' @ drop 4 s"
proof -
  assume "startswith s ''Key.''"
  moreover have "length ''Key.'' = (4::nat)" by simp
  ultimately have "take 4 s = ''Key.''" unfolding startswith_def by metis
  then show ?thesis using append_take_drop_id [of 4 s] by simp
qed

lemma parse_key_Inr: "\<exists>v. parse_key B s = Inr v"
proof (cases "startswith s ''Key.''")
  case True
  then obtain name where s: "s = ''Key.'' @ name"
    using startswith_Key by blast
  show ?thesis
    unfolding s parse_key_def index_split_Key
    by (simp add: startswith_def split: option.splits)
next
  case False
  then show ?thesis
    unfolding parse_key_def index_def
    by (auto split: sum.splits)
qed

lemma parse_key_Key:
  "parse_key B (''Key.'' @ name) =
     Inr (case key_attr B (takeWhile (\<lambda>x. x \<noteq> CHR ''.'') name) of
            Some v \<Rightarrow> v
          | None \<Rightarrow> KeyStr (''Key.'' @ name))"
  unfolding parse_key_def index_split_Key
  by (simp add: startswith_def split: option.splits)

text \<open>
  C7. \<open>parse_key\<close> returns a value for every string (lemma \<open>parse_key_Inr\<close>), but it does
  not fail closed. For a string \<open>Key.<name>\<close> it looks \<open>key_str.split('.')[1]\<close> up with
  \<open>getattr\<close> on the class \<open>Key\<close> and returns whatever the class has under that name
  (lemma \<open>parse_key_Key\<close>); the string comes back unchanged only when the class has no
  such attribute. \<open>__name__\<close> and \<open>__members__\<close> are names of no key, and attributes of
  every enumeration class: for \<open>Key.__name__\<close> the result is the str \<open>Key\<close>, for
  \<open>Key.__members__\<close> a mapping, neither a key nor the symbol as it was stored.
\<close>

theorem parse_key_returns_class_attribute:
  "parse_key sample_backend ''Key.__name__'' = Inr (KeyStr ''Key'') \<and>
   parse_key sample_backend ''Key.__members__'' = Inr (OtherObj ''mappingproxy'')"
  using parse_key_Key [of sample_backend "''__name__''"]
        parse_key_Key [of sample_backend "''__members__''"]
  by (simp add: sample_backend_def)

section \<open>Capture\<close>

lemma deliver_not_recording:
  "\<not> recording R \<Longrightarrow> \<exists>R'. deliver ns R = Inr R' \<and> events R' = events R \<and> \<not> recording R'"
proof (induction ns arbitrary: R)
  case Nil
  then show ?case by simp
next
  case (Cons a ns)
  obtain now n where a: "a = (now, n)" by (cases a)
  from Cons.prems have "\<exists>R1. handle now n R = Inr R1 \<and> events R1 = events R \<and> \<not> recording R1"
    by (cases n)
       (auto simp: on_click_handler_def on_move_handler_def on_scroll_handler_def
                   on_press_handler_def on_release_handler_def record_event_def recorder_stop_def
             split: prod.splits)
  then obtain R1 where h: "handle now n R = Inr R1" "events R1 = events R" "\<not> recording R1"
    by blast
  from Cons.IH [OF h(3)] h(1,2) show ?case
    by (auto simp: a)
qed

text \<open>
  C10. When the stop hotkey F9 is pressed during a capture session, \<open>_on_press\<close> first
  appends the \<open>key_press\<close> event of the hotkey and then calls \<open>stop()\<close>, which clears the
  recording flag. The event is the last one of the log: the release of the key that
  follows, and whatever else the listeners still deliver, is dropped by \<open>_record_event\<close>.
\<close>

theorem stop_hotkey_press_is_last:
  "recording R \<Longrightarrow> start_time R = Some t0 \<Longrightarrow>
   \<exists>R'. deliver ((t, on_press (Special ''f9'')) # (t', on_release (Special ''f9'')) # ns) R = Inr R'
        \<and> events R' = events R @ [\<lparr>data = key_press ''Key.f9'', time = t - t0\<rparr>]
        \<and> \<not> recording R'"
proof -
  assume r: "recording R" and s: "start_time R = Some t0"
  define R1 where "R1 = recorder_stop (R\<lparr>events := events R @ [\<lparr>data = key_press ''Key.f9'', time = t - t0\<rparr>]\<rparr>)"
  have h: "handle t (on_press (Special ''f9'')) R = Inr R1"
    using r s by (simp add: on_press_handler_def record_event_def R1_def)
  have n: "\<not> recording R1" by (simp add: R1_def recorder_stop_def)
  have e: "events R1 = events R @ [\<lparr>data = key_press ''Key.f9'', time = t - t0\<rparr>]"
    by (simp add: R1_def recorder_stop_def)
  from deliver_not_recording [OF n, of "(t', on_release (Special ''f9'')) # ns"] h e show ?thesis
    by auto
qed

theorem stop_hotkey_press_is_last_witness:
  "recording (recorder_start 0 EnhancedRecorder) \<and>
   start_time (recorder_start 0 EnhancedRecorder) = Some 0 \<and>
   (\<exists>R'. deliver [(3, on_press (Special ''f9'')), (4, on_release (Special ''f9''))]
            (recorder_start 0 EnhancedRecorder) = Inr R'
        \<and> events R' = [\<lparr>data = key_press ''Key.f9'', time = 3\<rparr>]
        \<and> \<not> recording R')"
  using stop_hotkey_press_is_last [of "recorder_start 0 EnhancedRecorder" 0 3 4 "[]"]
  by (simp add: recorder_start_def EnhancedRecorder_def)

lemma on_move_recording:
  "recording R \<Longrightarrow> start_time R = Some t0 \<Longrightarrow> record_mouse_moves R \<Longrightarrow>
   on_move_handler t x y R =
     Inr (if max \<bar>x - fst (last_mouse_pos R)\<bar> \<bar>y - snd (last_mouse_pos R)\<bar> \<ge> mouse_move_threshold R
          then R\<lparr>events := events R @ [\<lparr>data = mouse_move x y, time = t - t0\<rparr>],
                 last_mouse_pos := (x, y)\<rparr>
          else R)"
  by (auto simp: on_move_handler_def record_event_def split: prod.splits)

lemma deliver_moves:
  "recording R \<Longrightarrow> start_time R = Some t0 \<Longrightarrow> record_mouse_moves R \<Longrightarrow>
   \<exists>R'. deliver (move_notifications ms) R = Inr R' \<and>
        events R' = events R @ move_events t0 (retained (mouse_move_threshold R) (last_mouse_pos R) ms)"
proof (induction ms arbitrary: R)
  case Nil
  then show ?case by (simp add: move_notifications_def move_events_def)
next
  case (Cons m ms)
  obtain t x y where m: "m = (t, x, y)" by (cases m)
  let ?keep = "max \<bar>x - fst (last_mouse_pos R)\<bar> \<bar>y - snd (last_mouse_pos R)\<bar> \<ge> mouse_move_threshold R"
  let ?R1 = "if ?keep
          then R\<lparr>events := events R @ [\<lparr>data = mouse_move x y, time = t - t0\<rparr>],
                 last_mouse_pos := (x, y)\<rparr>
          else R"
  have h: "on_move_handler t x y R = Inr ?R1"
    using on_move_recording [OF Cons.prems] by simp
  have p: "recording ?R1" "start_time ?R1 = Some t0" "record_mouse_moves ?R1"
    using Cons.prems by auto
  from Cons.IH [OF p] obtain R' where
    d: "deliver (move_notifications ms) ?R1 = Inr R'" and
    e: "events R' = events ?R1 @ move_events t0 (retained (mouse_move_threshold ?R1) (last_mouse_pos ?R1) ms)"
    by blast
  have "deliver (move_notifications (m # ms)) R = Inr R'"
    using d h by (simp add: m move_notifications_def)
  moreover have "events R' = events R @ move_events t0 (retained (mouse_move_threshold R) (last_mouse_pos R) (m # ms))"
    using e by (cases ?keep) (simp_all add: m move_events_def)
  ultimately show ?case by blast
qed

text \<open>
  C2 (as amended). With movement recording enabled, the moves of a capture session that
  reach the log are exactly those the threshold filter keeps, every move compared with
  the last kept position. The position the first move is compared with is the one the
  recorder holds when the session starts: \<open>(0, 0)\<close> for a new recorder, otherwise the
  last position kept earlier, since \<open>start()\<close> does not reset \<open>last_mouse_pos\<close>.
\<close>

theorem move_filter_from_last_position:
  "record_mouse_moves R \<Longrightarrow>
   \<exists>R'. deliver (move_notifications ms) (recorder_start t0 R) = Inr R' \<and>
        events R' = move_events t0 (retained (mouse_move_threshold R) (last_mouse_pos R) ms)"
proof -
  assume "record_mouse_moves R"
  then have "recording (recorder_start t0 R)" "start_time (recorder_start t0 R) = Some t0"
     "record_mouse_moves (recorder_start t0 R)"
    by (simp_all add: recorder_start_def)
  from deliver_moves [OF this, of ms] show ?thesis
    by (simp add: recorder_start_def)
qed

theorem move_filter_from_last_position_witness:
  "record_mouse_moves EnhancedRecorder \<and>
   (\<exists>R'. deliver (move_notifications [(1, 2, 3), (2, 7, 3), (3, 9, 4), (4, 7, 8)])
             (recorder_start 0 EnhancedRecorder) = Inr R' \<and>
        events R' = [\<lparr>data = mouse_move 7 3, time = 2\<rparr>, \<lparr>data = mouse_move 7 8, time = 4\<rparr>])"
  using move_filter_from_last_position [of EnhancedRecorder "[(1, 2, 3), (2, 7, 3), (3, 9, 4), (4, 7, 8)]" 0]
  by (simp add: EnhancedRecorder_def move_events_def)

text \<open>
  The first move of the first session of a new recorder, to \<open>(2, 3)\<close>, is less than 5
  pixels away from \<open>(0, 0)\<close> on both axes: it is not recorded.
\<close>

theorem first_move_dropped_counterexample:
  "deliver [(1, on_move 2 3)] (recorder_start 0 EnhancedRecorder) =
     Inr (recorder_start 0 EnhancedRecorder)
   \<and> events (recorder_start 0 EnhancedRecorder) = []"
  by (simp add: on_move_handler_def recorder_start_def EnhancedRecorder_def)

section \<open>The player's steps\<close>

lemma apply_control_fields:
  "trace (apply_control c st) = trace st \<and> clock (apply_control c st) = clock st
   \<and> p_events (apply_control c st) = p_events st
   \<and> speed_multiplier (apply_control c st) = speed_multiplier st
   \<and> loop_count (apply_control c st) = loop_count st
   \<and> current_loop (apply_control c st) = current_loop st
   \<and> pending (apply_control c st) = pending st"
  by (cases c) (simp_all add: player_stop_def pause_def resume_def)

lemma apply_controls_fields:
  "trace (apply_controls cs st) = trace st \<and> clock (apply_controls cs st) = clock st
   \<and> p_events (apply_controls cs st) = p_events st
   \<and> speed_multiplier (apply_controls cs st) = speed_multiplier st
   \<and> loop_count (apply_controls cs st) = loop_count st
   \<and> current_loop (apply_controls cs st) = current_loop st
   \<and> pending (apply_controls cs st) = pending st"
  by (induction cs arbitrary: st) (simp_all add: apply_control_fields)

lemma apply_controls_not_playing: "\<not> playing st \<Longrightarrow> \<not> playing (apply_controls cs st)"
proof (induction cs arbitrary: st)
  case Nil
  then show ?case by simp
next
  case (Cons c cs)
  from Cons.prems have "\<not> playing (apply_control c st)"
    by (cases c) (simp_all add: player_stop_def pause_def resume_def)
  then show ?case using Cons.IH by simp
qed

lemma sync_fields:
  "trace (sync st) = trace st"
  "clock (sync st) = clock st"
  "p_events (sync st) = p_events st"
  "speed_multiplier (sync st) = speed_multiplier st"
  "loop_count (sync st) = loop_count st"
  "current_loop (sync st) = current_loop st"
  by (simp_all add: sync_def apply_controls_fields)

lemma sync_not_playing: "\<not> playing st \<Longrightarrow> \<not> playing (sync st)"
  by (simp add: sync_def apply_controls_not_playing)

lemma sync_quiet: "pending st = [] \<Longrightarrow> sync st = st"
  by (simp add: sync_def)

lemma sleep_fields:
  "trace (sleep s d st) = trace st @ [(clock st, Sleep s d)]"
  "clock (sleep s d st) = clock st + d"
  "p_events (sleep s d st) = p_events st"
  "speed_multiplier (sleep s d st) = speed_multiplier st"
  "loop_count (sleep s d st) = loop_count st"
  "current_loop (sleep s d st) = current_loop st"
  by (simp_all add: sleep_def sync_fields emit_def)

lemma sleep_not_playing: "\<not> playing st \<Longrightarrow> \<not> playing (sleep s d st)"
  by (simp add: sleep_def sync_not_playing emit_def)

lemma sleep_quiet:
  "pending st = [] \<Longrightarrow>
   sleep s d st = st\<lparr>trace := trace st @ [(clock st, Sleep s d)], clock := clock st + d\<rparr>"
  by (simp add: sleep_def sync_def emit_def)

text \<open>The two sleeps of 0.1 s return.\<close>

lemma time_sleep_tenth: "time_sleep s (1 / 10) st = Inr (sleep s (1 / 10) st)"
  by (simp add: time_sleep_def sleep_fits_def)

lemma sleep_fits_mono: "d \<le> d' \<Longrightarrow> sleep_fits d' \<Longrightarrow> sleep_fits d"
proof -
  assume "d \<le> d'" and "sleep_fits d'"
  then have "d * 10 ^ 9 \<le> d' * 10 ^ 9" "d' * 10 ^ 9 < 2 ^ 63"
    by (simp_all add: sleep_fits_def)
  then show ?thesis unfolding sleep_fits_def by (rule le_less_trans)
qed

lemma delay_of_nonneg: "0 \<le> delay_of t0 e st1"
  by (simp add: delay_of_def)

lemma delay_of_le_target:
  "t0 \<le> clock st1 \<Longrightarrow> delay_of t0 e st1 \<le> max 0 (time e / speed_multiplier st1)"
  by (simp add: delay_of_def max_def)

lemma delay_of_fits:
  "t0 \<le> clock st1 \<Longrightarrow> sleep_fits (time e / speed_multiplier st1) \<Longrightarrow>
   sleep_fits (delay_of t0 e st1)"
proof -
  assume c: "t0 \<le> clock st1" and f: "sleep_fits (time e / speed_multiplier st1)"
  have "sleep_fits 0" by (simp add: sleep_fits_def)
  with f have "sleep_fits (max 0 (time e / speed_multiplier st1))" by (simp add: max_def)
  with delay_of_le_target [OF c] show ?thesis by (rule sleep_fits_mono)
qed

lemma pause_wait_not_paused: "\<not> paused st \<Longrightarrow> pause_wait st = Some st"
  by (subst pause_wait.simps) simp

lemma pause_wait_not_playing: "\<not> playing st \<Longrightarrow> pause_wait st = Some st"
  by (subst pause_wait.simps) simp

text \<open>
  One event: either the sleep overflows and nothing has happened, or the sleep (if the
  delay is positive), the event and the callback (if there is one) are in the trace.
\<close>

lemma run_event_eq:
  "run_event B cb t0 n i e st1 =
     (if delay_of t0 e st1 > 0 \<and> \<not> sleep_fits (delay_of t0 e st1) then Inl OverflowError
      else Inr (let st2 = (if delay_of t0 e st1 > 0 then sleep pre_event (delay_of t0 e st1) st1 else st1);
                    st3 = execute_event B e st2
                in if cb then emit (Callback (real (i + 1) / real n)
                                      (current_loop st3 + 1) (loop_count st3)) st3
                   else st3))"
  by (simp add: run_event_def delay_of_def Let_def time_sleep_def del: outcome.simps)

lemma run_event_Inl:
  "run_event B cb t0 n i e st1 = Inl ex \<Longrightarrow>
   ex = OverflowError \<and> \<not> sleep_fits (delay_of t0 e st1)"
  by (simp add: run_event_eq split: if_splits)

lemma run_event_fits:
  "sleep_fits (delay_of t0 e st1) \<Longrightarrow> \<exists>st4. run_event B cb t0 n i e st1 = Inr st4"
  by (simp add: run_event_eq)

lemma run_event_fields:
  "run_event B cb t0 n i e st1 = Inr st4 \<Longrightarrow>
   speed_multiplier st4 = speed_multiplier st1 \<and> loop_count st4 = loop_count st1
   \<and> current_loop st4 = current_loop st1 \<and> p_events st4 = p_events st1
   \<and> clock st4 = clock st1 + delay_of t0 e st1"
  using delay_of_nonneg [of t0 e st1]
  by (auto simp: run_event_eq Let_def execute_event_def emit_def sleep_fields
           simp del: outcome.simps split: if_splits)

lemma run_event_trace:
  "run_event B cb t0 n i e st1 = Inr st4 \<Longrightarrow>
   trace st4 =
     trace st1
       @ (if delay_of t0 e st1 > 0 then [(clock st1, Sleep pre_event (delay_of t0 e st1))] else [])
       @ [(clock st1 + delay_of t0 e st1, Execute e (outcome B e))]
       @ (if cb then [(clock st1 + delay_of t0 e st1,
                       Callback (real (i + 1) / real n) (current_loop st1 + 1) (loop_count st1))]
          else [])"
  using delay_of_nonneg [of t0 e st1]
  by (auto simp: run_event_eq Let_def execute_event_def emit_def sleep_fields
           simp del: outcome.simps split: if_splits)

lemma run_event_not_playing:
  "run_event B cb t0 n i e st1 = Inr st4 \<Longrightarrow> \<not> playing st1 \<Longrightarrow> \<not> playing st4"
  using sleep_not_playing [of st1 pre_event "delay_of t0 e st1"]
  by (auto simp: run_event_eq Let_def execute_event_def emit_def
           simp del: outcome.simps split: if_splits)

lemma run_event_quiet:
  "run_event B cb t0 n i e st1 = Inr st4 \<Longrightarrow> quiet st1 \<Longrightarrow> quiet st4"
  by (auto simp: run_event_eq Let_def execute_event_def emit_def sleep_quiet quiet_def
           simp del: outcome.simps split: if_splits)

section \<open>Playback without stop and pause\<close>

lemma play_events_quiet:
  "quiet st \<Longrightarrow> speed_multiplier st \<noteq> 0 \<Longrightarrow> t0 \<le> clock st \<Longrightarrow>
   \<forall>e\<in>set es. sleep_fits (time e / speed_multiplier st) \<Longrightarrow>
   \<exists>st'. play_events B cb t0 n i es st = Some (None, st') \<and> quiet st'
        \<and> speed_multiplier st' = speed_multiplier st \<and> loop_count st' = loop_count st
        \<and> current_loop st' = current_loop st \<and> p_events st' = p_events st
        \<and> without_waits (effects st') =
            without_waits (effects st) @ sequence_effects B cb n i es (current_loop st + 1) (loop_count st)"
proof (induction es arbitrary: st i)
  case Nil
  then show ?case by simp
next
  case (Cons e es)
  have q: "pending st = []" "\<not> paused st" "playing st"
    using Cons.prems(1) by (simp_all add: quiet_def)
  have "sleep_fits (time e / speed_multiplier st)" using Cons.prems(4) by simp
  from delay_of_fits [OF Cons.prems(3) this] obtain st4 where
    r: "run_event B cb t0 n i e st = Inr st4"
    using run_event_fits by blast
  note f = run_event_fields [OF r]
  have q4: "quiet st4" by (rule run_event_quiet [OF r Cons.prems(1)])
  have c4: "t0 \<le> clock st4"
    using f Cons.prems(3) delay_of_nonneg [of t0 e st] by simp
  have w4: "without_waits (effects st4) = without_waits (effects st) @ [Execute e (outcome B e)]
        @ (if cb then [Callback (real (i + 1) / real n) (current_loop st + 1) (loop_count st)] else [])"
    unfolding effects_def run_event_trace [OF r]
    by (simp add: without_waits_def del: outcome.simps)
  have step: "play_events B cb t0 n i (e # es) st = play_events B cb t0 n (i + 1) es st4"
    using q Cons.prems(2) r by (simp add: pause_wait_not_paused)
  have "\<forall>e\<in>set es. sleep_fits (time e / speed_multiplier st4)"
    using Cons.prems(4) f by simp
  from Cons.IH [OF q4 _ c4 this, of "i + 1"] f Cons.prems(2) obtain st' where
    "play_events B cb t0 n (i + 1) es st4 = Some (None, st')" "quiet st'"
    "speed_multiplier st' = speed_multiplier st" "loop_count st' = loop_count st"
    "current_loop st' = current_loop st" "p_events st' = p_events st"
    "without_waits (effects st') = without_waits (effects st4)
        @ sequence_effects B cb n (i + 1) es (current_loop st + 1) (loop_count st)"
    by auto
  with step w4 show ?case
    by (auto simp del: outcome.simps)
qed

lemma play_sequence_quiet:
  "quiet st \<Longrightarrow> speed_multiplier st \<noteq> 0 \<Longrightarrow>
   \<forall>e\<in>set (p_events st). sleep_fits (time e / speed_multiplier st) \<Longrightarrow>
   \<exists>st'. play_sequence B cb st = Some (None, st') \<and> quiet st'
        \<and> speed_multiplier st' = speed_multiplier st \<and> loop_count st' = loop_count st
        \<and> current_loop st' = current_loop st \<and> p_events st' = p_events st
        \<and> without_waits (effects st') =
            without_waits (effects st)
              @ sequence_effects B cb (length (p_events st)) 0 (p_events st) (current_loop st + 1) (loop_count st)"
proof -
  assume q: "quiet st" "speed_multiplier st \<noteq> 0"
    and h: "\<forall>e\<in>set (p_events st). sleep_fits (time e / speed_multiplier st)"
  show ?thesis
  proof (cases "p_events st = []")
    case True
    with q show ?thesis by (simp add: play_sequence_def)
  next
    case False
    with play_events_quiet [OF q order_refl h, where B = B and cb = cb
                              and n = "length (p_events st)" and i = 0]
    show ?thesis by (simp add: play_sequence_def)
  qed
qed

lemma play_loop_quiet:
  "quiet st \<Longrightarrow> speed_multiplier st \<noteq> 0 \<Longrightarrow> nat (loop_count st - current_loop st) = k \<Longrightarrow>
   \<forall>e\<in>set (p_events st). sleep_fits (time e / speed_multiplier st) \<Longrightarrow>
   \<exists>st'. play_loop B cb st = Some (None, st')
        \<and> without_waits (effects st') =
            without_waits (effects st) @ run_effects B cb (p_events st) k (current_loop st + 1) (loop_count st)"
proof (induction k arbitrary: st)
  case 0
  then have "\<not> current_loop st < loop_count st" by simp
  then show ?case
    by (subst play_loop.simps) simp
next
  case (Suc k)
  from Suc.prems(3) have lt: "current_loop st < loop_count st" by simp
  from play_sequence_quiet [OF Suc.prems(1,2,4), where B = B and cb = cb] obtain st1 where
    s1: "play_sequence B cb st = Some (None, st1)" "quiet st1"
      "speed_multiplier st1 = speed_multiplier st" "loop_count st1 = loop_count st"
      "current_loop st1 = current_loop st" "p_events st1 = p_events st"
      "without_waits (effects st1) =
         without_waits (effects st)
           @ sequence_effects B cb (length (p_events st)) 0 (p_events st) (current_loop st + 1) (loop_count st)"
    by blast
  define st2 where "st2 = st1\<lparr>current_loop := current_loop st1 + 1\<rparr>"
  define st3 where "st3 = (if current_loop st2 < loop_count st2 then sleep between_loops (1 / 10) st2 else st2)"
  have q2: "pending st2 = []" using s1(2) by (simp add: st2_def quiet_def)
  have k0: "(k = 0) = (\<not> current_loop st2 < loop_count st2)"
    using Suc.prems(3) s1(4,5) by (auto simp: st2_def)
  have s3: "quiet st3" "speed_multiplier st3 = speed_multiplier st" "loop_count st3 = loop_count st"
      "current_loop st3 = current_loop st + 1" "p_events st3 = p_events st"
      "without_waits (effects st3) = without_waits (effects st1)
          @ (if k = 0 then [] else [Sleep between_loops (1 / 10)])"
    using s1(2-6) q2 k0
    by (simp_all add: st3_def sleep_quiet quiet_def st2_def effects_def without_waits_def)
  have k: "nat (loop_count st3 - current_loop st3) = k"
    using Suc.prems(3) s3(3,4) by simp
  have step: "play_loop B cb st = play_loop B cb st3"
    using lt Suc.prems(1) s1(1)
    by (subst play_loop.simps) (simp add: quiet_def st3_def st2_def Let_def)
  have "\<forall>e\<in>set (p_events st3). sleep_fits (time e / speed_multiplier st3)"
    using Suc.prems(4) s3(2,5) by simp
  from Suc.IH [OF s3(1) _ k this] s3(2) Suc.prems(2) obtain st' where
    "play_loop B cb st3 = Some (None, st')"
    "without_waits (effects st') =
       without_waits (effects st3) @ run_effects B cb (p_events st3) k (current_loop st3 + 1) (loop_count st3)"
    by auto
  with step s3 s1(7) show ?case
    by (cases "k = 0") (auto simp: add.commute add.left_commute)
qed

lemma play_quiet:
  "speed \<noteq> 0 \<Longrightarrow> \<forall>e\<in>set evs. sleep_fits (time e / speed) \<Longrightarrow>
   \<exists>st'. play B cb speed N (EnhancedPlayer evs now []) = Some st'
        \<and> without_waits (effects st') = run_effects B cb evs (nat N) 1 N
        \<and> \<not> playing st'"
proof -
  assume sp: "speed \<noteq> 0" and fit: "\<forall>e\<in>set evs. sleep_fits (time e / speed)"
  define st where "st = (sync (EnhancedPlayer evs now []))\<lparr>speed_multiplier := speed, loop_count := N,
                         current_loop := 0, playing := True\<rparr>"
  have st: "quiet st" "speed_multiplier st \<noteq> 0" "nat (loop_count st - current_loop st) = nat N"
    "effects st = []" "p_events st = evs" "current_loop st = 0" "loop_count st = N"
    using sp by (simp_all add: st_def sync_def EnhancedPlayer_def quiet_def effects_def)
  have "\<forall>e\<in>set (p_events st). sleep_fits (time e / speed_multiplier st)"
    using fit by (simp add: st_def sync_def EnhancedPlayer_def)
  from play_loop_quiet [OF st(1,2,3) this, where B = B and cb = cb] st(4-7) obtain st' where
    "play_loop B cb st = Some (None, st')"
    "without_waits (effects st') = run_effects B cb evs (nat N) 1 N"
    by (auto simp: without_waits_def)
  then show ?thesis
    unfolding play_def st_def [symmetric]
    by (simp add: effects_def)
qed

lemma executed_append: "executed (a @ b) = executed a @ executed b"
  by (induction a rule: executed.induct) simp_all

lemma called_back_append: "called_back (a @ b) = called_back a @ called_back b"
  by (induction a rule: called_back.induct) simp_all

lemma executed_without_waits: "executed (without_waits effs) = executed effs"
  unfolding without_waits_def
  by (induction effs rule: executed.induct) simp_all

lemma called_back_without_waits: "called_back (without_waits effs) = called_back effs"
  unfolding without_waits_def
  by (induction effs rule: called_back.induct) simp_all

lemma executed_sequence: "executed (sequence_effects B cb n i es l N) = es"
  by (induction es arbitrary: i) (simp_all add: executed_append del: outcome.simps)

lemma executed_run: "executed (run_effects B cb evs k l N) = concat (replicate k evs)"
  by (induction k arbitrary: l) (simp_all add: executed_append executed_sequence)

lemma called_back_sequence:
  "called_back (sequence_effects B True n i es l N) =
     map (\<lambda>j. (real (j + 1) / real n, l, N)) [i..<i + length es]"
proof (induction es arbitrary: i)
  case Nil
  then show ?case by simp
next
  case (Cons e es)
  have "[i..<i + length (e # es)] = i # [Suc i..<Suc i + length es]"
    by (simp add: upt_rec)
  with Cons.IH [of "Suc i"] show ?case
    by (simp del: outcome.simps)
qed

lemma called_back_run:
  "called_back (run_effects B True evs k l N) =
     concat (map (\<lambda>m. map (\<lambda>j. (real (j + 1) / real (length evs), l + int m, N)) [0..<length evs]) [0..<k])"
proof (induction k arbitrary: l)
  case 0
  then show ?case by simp
next
  case (Suc k)
  have split: "[0..<Suc k] = 0 # map Suc [0..<k]"
    by (simp only: map_Suc_upt upt_conv_Cons [of 0 "Suc k", OF zero_less_Suc])
  show ?case
    unfolding split
    using Suc.IH [of "l + 1"]
    by (cases "k = 0") (simp_all add: called_back_append called_back_sequence o_def add.assoc del: upt_Suc)
qed

lemma upt_Suc_shift: "map f [Suc 0..<Suc k] = map (\<lambda>m. f (Suc m)) [0..<k]"
  by (simp only: map_Suc_upt [symmetric] map_map o_def)

text \<open>
  C9 (as amended). For a non-empty log, \<open>N \<ge> 1\<close> loops and a positive speed, with no
  stop and no pause, and with every target time \<open>time / speed\<close> of the log short enough
  for \<open>time.sleep\<close> to accept it (\<open>sleep_fits\<close>), \<open>play\<close> returns and has executed the
  log \<open>N\<close> times over, \<open>N \<times> len(log)\<close> events; the callback was called after every
  event with the fraction \<open>(i + 1) / len(log)\<close> and the loop number running from 1 to
  \<open>N\<close>; and the sleep of 100 ms stands between two consecutive iterations and not after
  the last (\<open>run_effects\<close>).
\<close>

theorem looping_play:
  "evs \<noteq> [] \<Longrightarrow> 1 \<le> N \<Longrightarrow> 0 < speed \<Longrightarrow>
   \<forall>e\<in>set evs. sleep_fits (time e / speed) \<Longrightarrow>
   \<exists>st'. play B True speed N (EnhancedPlayer evs now []) = Some st'
        \<and> executed (effects st') = concat (replicate (nat N) evs)
        \<and> length (executed (effects st')) = nat N * length evs
        \<and> called_back (effects st') =
            concat (map (\<lambda>l. map (\<lambda>i. (real (i + 1) / real (length evs), int l, N)) [0..<length evs])
                        [1..<Suc (nat N)])
        \<and> without_waits (effects st') = run_effects B True evs (nat N) 1 N"
proof -
  assume "0 < speed" and fit: "\<forall>e\<in>set evs. sleep_fits (time e / speed)"
  then have "speed \<noteq> 0" by simp
  from play_quiet [OF this fit, where B = B and cb = True and N = N and now = now]
  obtain st' where p: "play B True speed N (EnhancedPlayer evs now []) = Some st'"
    and w: "without_waits (effects st') = run_effects B True evs (nat N) 1 N"
    by blast
  have e: "executed (effects st') = concat (replicate (nat N) evs)"
    using executed_without_waits [of "effects st'"] w by (simp add: executed_run)
  have c: "called_back (effects st') =
       concat (map (\<lambda>m. map (\<lambda>j. (real (j + 1) / real (length evs), 1 + int m, N)) [0..<length evs]) [0..<nat N])"
    using called_back_without_waits [of "effects st'"] w by (simp add: called_back_run)
  have l: "length (concat (replicate k evs)) = k * length evs" for k
    by (induction k) simp_all
  have "called_back (effects st') =
       concat (map (\<lambda>l. map (\<lambda>i. (real (i + 1) / real (length evs), int l, N)) [0..<length evs])
                        [1..<Suc (nat N)])"
    unfolding c One_nat_def upt_Suc_shift by (simp add: add.commute)
  with p w e l show ?thesis by simp
qed

theorem looping_play_witness:
  "[mv 0, mv 1] \<noteq> [] \<and> (1::int) \<le> 2 \<and> (0::real) < 1 \<and>
   sleep_fits (time (mv 0) / 1) \<and> sleep_fits (time (mv 1) / 1) \<and>
   (\<exists>st'. play sample_backend True 1 2 (EnhancedPlayer [mv 0, mv 1] 0 []) = Some st'
        \<and> executed (effects st') = [mv 0, mv 1, mv 0, mv 1]
        \<and> length (executed (effects st')) = 4
        \<and> called_back (effects st') = [(1 / 2, 1, 2), (1, 1, 2), (1 / 2, 2, 2), (1, 2, 2)]
        \<and> without_waits (effects st') =
            [Execute (mv 0) (Inr (SetPosition 10 20)), Callback (1 / 2) 1 2,
             Execute (mv 1) (Inr (SetPosition 10 20)), Callback 1 1 2,
             Sleep between_loops (1 / 10),
             Execute (mv 0) (Inr (SetPosition 10 20)), Callback (1 / 2) 2 2,
             Execute (mv 1) (Inr (SetPosition 10 20)), Callback 1 2 2])"
proof -
  have h: "[mv 0, mv 1] \<noteq> []" "(1::int) \<le> 2" "(0::real) < 1"
    "\<forall>e\<in>set [mv 0, mv 1]. sleep_fits (time e / 1)"
    by (simp_all add: mv_def sleep_fits_def)
  have o: "outcome sample_backend (mv t) = Inr (SetPosition 10 20)" for t
    by (simp add: mv_def call_def sample_backend_def)
  have n: "nat 2 = Suc (Suc 0)" by simp
  from looping_play [OF h, of sample_backend 0] obtain st' where
    p: "play sample_backend True 1 2 (EnhancedPlayer [mv 0, mv 1] 0 []) = Some st'" and
    e: "executed (effects st') = concat (replicate (nat 2) [mv 0, mv 1])" and
    l: "length (executed (effects st')) = nat 2 * length [mv 0, mv 1]" and
    c: "called_back (effects st') =
            concat (map (\<lambda>l. map (\<lambda>i. (real (i + 1) / real (length [mv 0, mv 1]), int l, 2))
                                   [0..<length [mv 0, mv 1]])
                        [1..<Suc (nat 2)])" and
    w: "without_waits (effects st') = run_effects sample_backend True [mv 0, mv 1] (nat 2) 1 2"
    by blast
  have e': "executed (effects st') = [mv 0, mv 1, mv 0, mv 1]"
    unfolding e n by simp
  have l': "length (executed (effects st')) = 4"
    unfolding l by simp
  have u: "[1..<Suc (Suc (Suc 0))] = [1, 2]" "[0..<length [mv 0, mv 1]] = [0, 1]"
    by (simp_all add: upt_rec)
  have c': "called_back (effects st') = [(1 / 2, 1, 2), (1, 1, 2), (1 / 2, 2, 2), (1, 2, 2)]"
    unfolding c n u by simp
  have w': "without_waits (effects st') =
            [Execute (mv 0) (Inr (SetPosition 10 20)), Callback (1 / 2) 1 2,
             Execute (mv 1) (Inr (SetPosition 10 20)), Callback 1 1 2,
             Sleep between_loops (1 / 10),
             Execute (mv 0) (Inr (SetPosition 10 20)), Callback (1 / 2) 2 2,
             Execute (mv 1) (Inr (SetPosition 10 20)), Callback 1 2 2]"
    unfolding w n by (simp add: o del: outcome.simps)
  from h p e' l' c' w' show ?thesis by auto
qed

text \<open>
  One event 5 s into the log, played at speed 10^-10: the delay of 5 * 10^10 s is more
  than \<open>time.sleep\<close> accepts, \<open>play\<close> prints the OverflowError, and no event is executed.
\<close>

theorem sleep_overflow_counterexample:
  "map_option trace (play sample_backend True (1 / 10 ^ 10) 1 (EnhancedPlayer [mv 5] 0 []))
     = Some [(0, Print OverflowError)]"
  by code_simp

lemma no_Print_sequence: "Print x \<notin> set (sequence_effects B cb n i es l N)"
  by (induction es arbitrary: i) (simp_all del: outcome.simps)

lemma no_Print_run: "Print x \<notin> set (run_effects B cb evs k l N)"
  by (induction k arbitrary: l) (simp_all add: no_Print_sequence)

lemma Execute_in_sequence:
  "e \<in> set es \<Longrightarrow> Execute e (outcome B e) \<in> set (sequence_effects B cb n i es l N)"
  by (induction es arbitrary: i) (auto simp del: outcome.simps)

lemma set_without_waits: "set (without_waits effs) = {eff \<in> set effs. \<not> is_wait eff}"
  by (auto simp: without_waits_def)

text \<open>
  C8 (as amended). An event whose dispatch raises (here \<open>bad\<close>, anywhere in the log) is
  executed, its exception is caught inside \<open>_execute_event\<close>, and playback goes on. When
  nothing else ends playback (no stop and no pause, a positive speed, every target
  time \<open>time / speed\<close> of the log short enough for \<open>time.sleep\<close>), \<open>play\<close> returns, no
  playback error is printed, and all events of the log, those after \<open>bad\<close> included, are
  executed in log order in every loop iteration.
\<close>

theorem dispatch_failure_contained:
  "outcome B bad = Inl ex \<Longrightarrow> 0 < speed \<Longrightarrow> 1 \<le> N \<Longrightarrow>
   \<forall>e\<in>set (pre @ bad # post). sleep_fits (time e / speed) \<Longrightarrow>
   \<exists>st'. play B cb speed N (EnhancedPlayer (pre @ bad # post) now []) = Some st'
        \<and> Execute bad (Inl ex) \<in> set (effects st')
        \<and> (\<forall>x. Print x \<notin> set (effects st'))
        \<and> executed (effects st') = concat (replicate (nat N) (pre @ bad # post))"
proof -
  assume bad: "outcome B bad = Inl ex" and "0 < speed" and N: "1 \<le> N"
    and fit: "\<forall>e\<in>set (pre @ bad # post). sleep_fits (time e / speed)"
  then have "speed \<noteq> 0" by simp
  from play_quiet [OF this fit, where B = B and cb = cb and N = N and now = now]
  obtain st' where p: "play B cb speed N (EnhancedPlayer (pre @ bad # post) now []) = Some st'"
    and w: "without_waits (effects st') = run_effects B cb (pre @ bad # post) (nat N) 1 N"
    by blast
  have e: "executed (effects st') = concat (replicate (nat N) (pre @ bad # post))"
    using executed_without_waits [of "effects st'"] w by (simp add: executed_run)
  obtain k where k: "nat N = Suc k" using N by (cases "nat N") auto
  have "Execute bad (outcome B bad) \<in> set (run_effects B cb (pre @ bad # post) (nat N) 1 N)"
    unfolding k using Execute_in_sequence [of bad "pre @ bad # post"] by (simp del: outcome.simps)
  then have i: "Execute bad (Inl ex) \<in> set (effects st')"
    unfolding w [symmetric] set_without_waits bad by simp
  have "Print x \<notin> set (effects st')" for x
  proof
    assume "Print x \<in> set (effects st')"
    then have "Print x \<in> set (without_waits (effects st'))"
      by (simp add: set_without_waits)
    then show False unfolding w using no_Print_run by blast
  qed
  with p e i show ?thesis by blast
qed

theorem dispatch_failure_contained_witness:
  "outcome sample_backend bad_key = Inl BackendError \<and> (0::real) < 1 \<and> (1::int) \<le> 1 \<and>
   sleep_fits (time (mv 0) / 1) \<and> sleep_fits (time bad_key / 1) \<and> sleep_fits (time (mv 2) / 1) \<and>
   (\<exists>st'. play sample_backend False 1 1 (EnhancedPlayer ([mv 0] @ bad_key # [mv 2]) 0 []) = Some st'
        \<and> Execute bad_key (Inl BackendError) \<in> set (effects st')
        \<and> (\<forall>x. Print x \<notin> set (effects st'))
        \<and> executed (effects st') = [mv 0, bad_key, mv 2])"
proof -
  have b: "outcome sample_backend bad_key = Inl BackendError"
    by (simp add: bad_key_def parse_key_def startswith_def index_def sample_backend_def call_def)
  have f: "\<forall>e\<in>set ([mv 0] @ bad_key # [mv 2]). sleep_fits (time e / 1)"
    by (simp add: mv_def bad_key_def sleep_fits_def)
  from dispatch_failure_contained [OF b _ _ f, of 1 False 0] b f show ?thesis
    by simp
qed

text \<open>
  A log of the failing key press and a move 10^11 s later: the key press is executed and
  its exception caught, but the sleep before the move raises OverflowError outside
  \<open>_execute_event\<close>; \<open>play\<close> prints it, and the move is not executed.
\<close>

theorem later_sleep_overflow_counterexample:
  "map_option trace (play sample_backend False 1 1 (EnhancedPlayer [bad_key, far_move] 0 []))
     = Some [(0, Sleep pre_event 1), (1, Execute bad_key (Inl BackendError)),
             (1, Print OverflowError)]"
  by code_simp

section \<open>Playback under calls of the other thread\<close>

lemma play_loop_empty:
  "p_events st = [] \<Longrightarrow> nat (loop_count st - current_loop st) = m \<Longrightarrow>
   \<exists>st' k. play_loop B cb st = Some (None, st')
        \<and> effects st' = effects st @ replicate k (Sleep between_loops (1 / 10))
        \<and> clock st' = clock st + real k / 10
        \<and> speed_multiplier st' = speed_multiplier st \<and> loop_count st' = loop_count st
        \<and> k \<le> nat (loop_count st - current_loop st - 1)
        \<and> (pending st = [] \<and> playing st \<longrightarrow> k = nat (loop_count st - current_loop st - 1))"
proof (induction m arbitrary: st)
  case 0
  then have "\<not> current_loop st < loop_count st" by simp
  then have "play_loop B cb st = Some (None, st)"
    by (subst play_loop.simps) simp
  moreover have "nat (loop_count st - current_loop st - 1) = 0"
    using 0 by simp
  ultimately show ?case by simp
next
  case (Suc m)
  from Suc.prems(2) have lt: "current_loop st < loop_count st" by simp
  show ?case
  proof (cases "playing st")
    case False
    then have "play_loop B cb st = Some (None, st)"
      by (subst play_loop.simps) simp
    with False show ?thesis by simp
  next
    case True
    define st2 where "st2 = st\<lparr>current_loop := current_loop st + 1\<rparr>"
    define st3 where "st3 = (if current_loop st2 < loop_count st2 then sleep between_loops (1 / 10) st2 else st2)"
    have step: "play_loop B cb st = play_loop B cb st3"
      using lt True Suc.prems(1)
      by (subst play_loop.simps) (simp add: play_sequence_def st3_def st2_def Let_def)
    have f3: "p_events st3 = []" "loop_count st3 = loop_count st" "current_loop st3 = current_loop st + 1"
      "speed_multiplier st3 = speed_multiplier st"
      using Suc.prems(1) by (simp_all add: st3_def st2_def sleep_fields)
    have m: "nat (loop_count st3 - current_loop st3) = m"
      using Suc.prems(2) f3 by simp
    from Suc.IH [OF f3(1) m] obtain st' k where
      r: "play_loop B cb st3 = Some (None, st')"
         "effects st' = effects st3 @ replicate k (Sleep between_loops (1 / 10))"
         "clock st' = clock st3 + real k / 10"
         "speed_multiplier st' = speed_multiplier st3" "loop_count st' = loop_count st3"
         "k \<le> nat (loop_count st3 - current_loop st3 - 1)"
         "pending st3 = [] \<and> playing st3 \<longrightarrow> k = nat (loop_count st3 - current_loop st3 - 1)"
      by blast
    show ?thesis
    proof (cases "current_loop st + 1 < loop_count st")
      case more: True
      then have e3: "effects st3 = effects st @ [Sleep between_loops (1 / 10)]"
          "clock st3 = clock st + 1 / 10"
        by (simp_all add: st3_def st2_def sleep_fields effects_def)
      have q3: "pending st = [] \<and> playing st \<longrightarrow> pending st3 = [] \<and> playing st3"
        using more by (auto simp: st3_def st2_def sleep_quiet)
      have "effects st' = effects st @ replicate (Suc k) (Sleep between_loops (1 / 10))"
        using r(2) e3 by (simp add: replicate_append_same)
      moreover have "clock st' = clock st + real (Suc k) / 10"
        using r(3) e3 by (simp add: field_simps)
      moreover have "Suc k \<le> nat (loop_count st - current_loop st - 1)"
        using r(6) f3 more by simp
      moreover have "pending st = [] \<and> playing st \<longrightarrow> Suc k = nat (loop_count st - current_loop st - 1)"
        using r(7) q3 f3 more by auto
      ultimately show ?thesis
        using step r(1,4,5) f3 by metis
    next
      case last: False
      then have "st3 = st2" by (simp add: st3_def st2_def)
      then have e3: "effects st3 = effects st" "clock st3 = clock st"
        by (simp_all add: st2_def effects_def)
      have "k = 0" using r(6) f3 last by simp
      moreover have "nat (loop_count st - current_loop st - 1) = 0" using last by simp
      ultimately show ?thesis
        using step r(1-5) f3 e3 by simp
    qed
  qed
qed

text \<open>
  C6 (as amended). On an empty log \<open>play\<close> returns for every speed, every loop count and
  whatever the other thread does; it executes no event and never calls the callback. It
  does sleep: 100 ms between two loop iterations, \<open>loops - 1\<close> times when nobody stops
  it, so that it returns at once only for \<open>loops \<le> 1\<close>.
\<close>

theorem play_empty_log:
  "\<exists>st' k. play B cb speed loops (EnhancedPlayer [] now ctl) = Some st'
        \<and> executed (effects st') = [] \<and> called_back (effects st') = []
        \<and> effects st' = replicate k (Sleep between_loops (1 / 10))
        \<and> clock st' = now + real k / 10
        \<and> k \<le> nat (loops - 1)
        \<and> (ctl = [] \<longrightarrow> k = nat (loops - 1))"
proof -
  define st where "st = (sync (EnhancedPlayer [] now ctl))\<lparr>speed_multiplier := speed, loop_count := loops,
                         current_loop := 0, playing := True\<rparr>"
  have st: "p_events st = []" "effects st = []" "clock st = now" "loop_count st = loops"
    "current_loop st = 0" "playing st" "ctl = [] \<longrightarrow> pending st = []"
    by (simp_all add: st_def sync_fields effects_def EnhancedPlayer_def sync_quiet)
  from play_loop_empty [OF st(1) refl, where B = B and cb = cb] st obtain st' k where
    r: "play_loop B cb st = Some (None, st')"
       "effects st' = replicate k (Sleep between_loops (1 / 10))"
       "clock st' = now + real k / 10"
       "k \<le> nat (loops - 1)"
       "ctl = [] \<longrightarrow> k = nat (loops - 1)"
    by auto
  have x: "executed (replicate k (Sleep between_loops (1 / 10))) = []"
          "called_back (replicate k (Sleep between_loops (1 / 10))) = []"
    by (induction k) simp_all
  have p: "play B cb speed loops (EnhancedPlayer [] now ctl) = Some (st'\<lparr>playing := False\<rparr>)"
    unfolding play_def st_def [symmetric] r(1) by simp
  have f: "effects (st'\<lparr>playing := False\<rparr>) = effects st'" "clock (st'\<lparr>playing := False\<rparr>) = clock st'"
    by (simp_all add: effects_def)
  show ?thesis
    using r(4,5) by (intro exI [of _ "st'\<lparr>playing := False\<rparr>"] exI [of _ k]) (simp add: p f r(2,3) x)
qed

theorem play_empty_log_witness:
  "\<exists>st' k. play sample_backend True 1 3 (EnhancedPlayer [] 0 []) = Some st'
        \<and> executed (effects st') = [] \<and> called_back (effects st') = []
        \<and> effects st' = replicate k (Sleep between_loops (1 / 10))
        \<and> clock st' = 0 + real k / 10
        \<and> k \<le> nat (3 - 1)
        \<and> ([] = ([] :: (real \<times> control) list)) \<and> k = 2"
  using play_empty_log [of sample_backend True 1 3 0 "[]"]
  by auto

text \<open>With two loops, \<open>play\<close> on the empty log returns after a sleep of 100 ms.\<close>

theorem play_empty_log_sleeps_counterexample:
  "map_option (\<lambda>st. (trace st, clock st)) (play sample_backend True 1 2 (EnhancedPlayer [] 0 []))
     = Some ([(0, Sleep between_loops (1 / 10))], 1 / 10)"
  by (simp add: play_def play_loop.simps play_sequence_def EnhancedPlayer_def sync_def sleep_def emit_def)

lemma negative_speed_fits: "speed < 0 \<Longrightarrow> 0 \<le> time e \<Longrightarrow> sleep_fits (time e / speed)"
proof -
  assume "speed < 0" "0 \<le> time e"
  then have "time e / speed \<le> 0" by (simp add: divide_nonneg_neg)
  moreover have "sleep_fits 0" by (simp add: sleep_fits_def)
  ultimately show ?thesis by (rule sleep_fits_mono)
qed

text \<open>
  C3 (as amended). \<open>play\<close> checks neither argument. With \<open>loops \<le> 0\<close> the loop body
  never runs: nothing is executed and nothing sleeps, and no error is reported; the
  speed and the loop count have been stored. With speed 0 on a non-empty log (and no
  call of the other thread) the first delay computation divides by zero; \<open>play\<close> catches
  the ZeroDivisionError and prints it, before any event is executed and before any
  sleep. A negative speed is not rejected: every event of the log is executed in every
  loop iteration, for every log whose target times \<open>time / speed\<close> \<open>time.sleep\<close> would
  accept; with a negative speed these are all logs with timestamps \<open>\<ge> 0\<close> (lemma
  \<open>negative_speed_fits\<close>).
\<close>

theorem play_unvalidated_configuration:
  "(loops \<le> 0 \<longrightarrow>
      (\<exists>st'. play B cb speed loops (EnhancedPlayer evs now ctl) = Some st'
            \<and> trace st' = [] \<and> clock st' = now
            \<and> speed_multiplier st' = speed \<and> loop_count st' = loops))
   \<and> (evs \<noteq> [] \<and> 1 \<le> loops \<longrightarrow>
      (\<exists>st'. play B cb 0 loops (EnhancedPlayer evs now []) = Some st'
            \<and> trace st' = [(now, Print ZeroDivisionError)] \<and> clock st' = now))
   \<and> (speed < 0 \<and> 1 \<le> loops \<and> (\<forall>e\<in>set evs. sleep_fits (time e / speed)) \<longrightarrow>
      (\<exists>st'. play B cb speed loops (EnhancedPlayer evs now []) = Some st'
            \<and> executed (effects st') = concat (replicate (nat loops) evs)))"
proof (intro conjI impI)
  assume l: "loops \<le> 0"
  define st where "st = (sync (EnhancedPlayer evs now ctl))\<lparr>speed_multiplier := speed, loop_count := loops,
                         current_loop := 0, playing := True\<rparr>"
  have "play_loop B cb st = Some (None, st)"
    using l by (subst play_loop.simps) (simp add: st_def)
  then have "play B cb speed loops (EnhancedPlayer evs now ctl) = Some (st\<lparr>playing := False\<rparr>)"
    unfolding play_def st_def [symmetric] by simp
  moreover have "trace st = []" "clock st = now" "speed_multiplier st = speed" "loop_count st = loops"
    by (simp_all add: st_def sync_fields EnhancedPlayer_def)
  ultimately show "\<exists>st'. play B cb speed loops (EnhancedPlayer evs now ctl) = Some st'
            \<and> trace st' = [] \<and> clock st' = now
            \<and> speed_multiplier st' = speed \<and> loop_count st' = loops"
    by simp
next
  assume a: "evs \<noteq> [] \<and> 1 \<le> loops"
  define st where "st = (sync (EnhancedPlayer evs now []))\<lparr>speed_multiplier := 0, loop_count := loops,
                         current_loop := 0, playing := True\<rparr>"
  have f: "p_events st = evs" "playing st" "\<not> paused st" "speed_multiplier st = 0"
    "current_loop st = 0" "loop_count st = loops" "trace st = []" "clock st = now"
    by (simp_all add: st_def sync_quiet EnhancedPlayer_def)
  obtain e es where evs: "evs = e # es" using a by (cases evs) auto
  have "play_events B cb now (length evs) 0 evs st = Some (Some ZeroDivisionError, st)"
    unfolding evs using f by (simp add: pause_wait_not_paused)
  then have "play_sequence B cb st = Some (Some ZeroDivisionError, st)"
    using a f by (simp add: play_sequence_def)
  then have "play_loop B cb st = Some (Some ZeroDivisionError, st)"
    using a f by (subst play_loop.simps) simp
  then have "play B cb 0 loops (EnhancedPlayer evs now []) =
      Some ((emit (Print ZeroDivisionError) st)\<lparr>playing := False\<rparr>)"
    unfolding play_def st_def [symmetric] by simp
  then show "\<exists>st'. play B cb 0 loops (EnhancedPlayer evs now []) = Some st'
            \<and> trace st' = [(now, Print ZeroDivisionError)] \<and> clock st' = now"
    using f by (simp add: emit_def)
next
  assume a: "speed < 0 \<and> 1 \<le> loops \<and> (\<forall>e\<in>set evs. sleep_fits (time e / speed))"
  then have "speed \<noteq> 0" "\<forall>e\<in>set evs. sleep_fits (time e / speed)" by simp_all
  from play_quiet [OF this, where B = B and cb = cb and N = loops and now = now]
  obtain st' where p: "play B cb speed loops (EnhancedPlayer evs now []) = Some st'"
    and w: "without_waits (effects st') = run_effects B cb evs (nat loops) 1 loops"
    by blast
  have "executed (effects st') = concat (replicate (nat loops) evs)"
    using executed_without_waits [of "effects st'"] w by (simp add: executed_run)
  with p show "\<exists>st'. play B cb speed loops (EnhancedPlayer evs now []) = Some st'
            \<and> executed (effects st') = concat (replicate (nat loops) evs)"
    by blast
qed

theorem play_unvalidated_configuration_witness:
  "((0::int) \<le> 0 \<and>
      (\<exists>st'. play sample_backend True 1 0 (EnhancedPlayer [mv 5] 0 [(1, Stop)]) = Some st'
            \<and> trace st' = [] \<and> clock st' = 0
            \<and> speed_multiplier st' = 1 \<and> loop_count st' = 0))
   \<and> ([mv 5] \<noteq> [] \<and> (1::int) \<le> 1 \<and>
      (\<exists>st'. play sample_backend True 0 1 (EnhancedPlayer [mv 5] 0 []) = Some st'
            \<and> trace st' = [(0, Print ZeroDivisionError)] \<and> clock st' = 0))
   \<and> ((-1::real) < 0 \<and> (1::int) \<le> 1 \<and> sleep_fits (time (mv 5) / (-1)) \<and>
      (\<exists>st'. play sample_backend True (-1) 1 (EnhancedPlayer [mv 5] 0 []) = Some st'
            \<and> executed (effects st') = [mv 5]))"
proof -
  have a: "(\<exists>st'. play sample_backend True 1 0 (EnhancedPlayer [mv 5] 0 [(1, Stop)]) = Some st'
            \<and> trace st' = [] \<and> clock st' = 0
            \<and> speed_multiplier st' = 1 \<and> loop_count st' = 0)"
    using play_unvalidated_configuration [of 0 sample_backend True 1 "[mv 5]" 0 "[(1, Stop)]"]
    by simp
  have b: "(\<exists>st'. play sample_backend True 0 1 (EnhancedPlayer [mv 5] 0 []) = Some st'
            \<and> trace st' = [(0, Print ZeroDivisionError)] \<and> clock st' = 0)"
    using play_unvalidated_configuration [of 1 sample_backend True 0 "[mv 5]" 0 "[]"]
    by simp
  have c: "(\<exists>st'. play sample_backend True (-1) 1 (EnhancedPlayer [mv 5] 0 []) = Some st'
            \<and> executed (effects st') = [mv 5])"
    using play_unvalidated_configuration [of 1 sample_backend True "-1" "[mv 5]" 0 "[]"]
    by (simp add: mv_def sleep_fits_def)
  have f: "sleep_fits (time (mv 5) / (-1))"
    by (simp add: mv_def sleep_fits_def)
  from a b c f show ?thesis by simp
qed

text \<open>With speed \<open>-1\<close> the event of a one-event log is executed, and the callback is called.\<close>

theorem negative_speed_dispatches_counterexample:
  "map_option trace (play sample_backend True (-1) 1 (EnhancedPlayer [mv 5] 0 []))
     = Some [(0, Execute (mv 5) (Inr (SetPosition 10 20))), (0, Callback 1 1 1)]"
  by code_simp

section \<open>Pause and the schedule\<close>




lemma on_schedule_Callback [simp]:
  "on_schedule t0 s ((c, Callback p l n) # tr) = on_schedule t0 s tr"
  by simp





section \<open>Stop\<close>




















end
